theory Spec2Isabelle
  imports Complex_Main "HOL-Library.Multiset"
begin

section \<open>Run-time failures\<close>

text \<open>
  The Go run-time panics that the modelled functions can raise, and the one error value
  that a constructor returns. A function that can fail returns \<open>fault + 'a\<close>.
\<close>

datatype fault =
    MakeSliceCapOutOfRange
  | IndexOutOfRange
  | SliceBoundsOutOfRange
  | OpenFileError

section \<open>anomaly: the sliding-window detector\<close>

text \<open>
  In this embedding \<open>float64\<close> is idealised as \<open>real\<close>: every arithmetic operation is exact
  and \<open>math.Sqrt\<close> is the real square root, so it says what the program computes only where
  the program's operations do not round, overflow or meet NaN. The state update with
  rounded arithmetic is embedded a second time further down. \<open>int\<close> and \<open>int64\<close> are
  unbounded integers. The mutex is not modelled: calls are sequential.
\<close>

record AnomalyDetector =
  WindowSize :: int
  Threshold :: real
  dataWindow :: "real list"
  sum_f :: real
  sumOfSquares :: real

record DataPoint =
  Timestamp :: int
  Value :: real

definition MaxFloat64 :: real where
  "MaxFloat64 = (2 ^ 53 - 1) * 2 ^ 971"

text \<open>
  \<open>make([]float64, 0, cap)\<close> calls the runtime's \<open>makeslice\<close>, which panics with
  \<open>makeslice: cap out of range\<close> when the capacity is negative or when its \<open>8 * cap\<close> bytes
  exceed \<open>maxAlloc\<close>, which is \<open>2^48\<close> in the 64-bit runtime (linux/amd64). An allocation
  within that limit that the machine cannot satisfy ends the process; that is outside the
  model, and the properties of runs are stated for a detector that \<open>NewDetector\<close> returned.
\<close>

definition maxAlloc :: int where
  "maxAlloc = 2 ^ 48"

definition makeslice_panics :: "int \<Rightarrow> bool" where
  "makeslice_panics cap \<longleftrightarrow> cap < 0 \<or> 8 * cap > maxAlloc"

definition NewDetector :: "int \<Rightarrow> real \<Rightarrow> fault + AnomalyDetector" where
  "NewDetector windowSize threshold =
     (if makeslice_panics windowSize then Inl MakeSliceCapOutOfRange
      else Inr \<lparr>WindowSize = windowSize, Threshold = threshold, dataWindow = [],
                sum_f = 0, sumOfSquares = 0\<rparr>)"

text \<open>Lines 42-47 of ProcessData: the eviction branch; \<open>dataWindow[0]\<close> panics on an empty window.\<close>

definition evict :: "AnomalyDetector \<Rightarrow> fault + AnomalyDetector" where
  "evict ad =
     (if int (length (dataWindow ad)) \<ge> WindowSize ad then
        (case dataWindow ad of
           [] \<Rightarrow> Inl IndexOutOfRange
         | oldValue # rest \<Rightarrow>
             Inr (ad\<lparr>sum_f := sum_f ad - oldValue,
                     sumOfSquares := sumOfSquares ad - oldValue * oldValue,
                     dataWindow := rest\<rparr>))
      else Inr ad)"

text \<open>Lines 49-51: the new value enters the sums and the window.\<close>

definition insert_value :: "AnomalyDetector \<Rightarrow> real \<Rightarrow> AnomalyDetector" where
  "insert_value ad newValue =
     ad\<lparr>sum_f := sum_f ad + newValue,
        sumOfSquares := sumOfSquares ad + newValue * newValue,
        dataWindow := dataWindow ad @ [newValue]\<rparr>"

text \<open>Lines 53-77: the classification, read from the state after the insertion.\<close>

definition evaluate :: "AnomalyDetector \<Rightarrow> real \<Rightarrow> bool \<times> real" where
  "evaluate ad newValue =
     (let currentSize = length (dataWindow ad) in
      if currentSize < 2 then (False, 0)
      else
        let mean = sum_f ad / real currentSize;
            variance0 = (sumOfSquares ad / real currentSize) - (mean * mean);
            variance = (if variance0 < 0 then 0 else variance0);
            stdDev = sqrt variance
        in if stdDev = 0 then
             (if newValue \<noteq> mean then (True, MaxFloat64) else (False, 0))
           else
             let zScore = \<bar>(newValue - mean) / stdDev\<bar>
             in (zScore > Threshold ad, zScore))"

definition ProcessData ::
  "AnomalyDetector \<Rightarrow> DataPoint \<Rightarrow> fault + ((bool \<times> real) \<times> AnomalyDetector)" where
  "ProcessData ad dp =
     (let newValue = Value dp in
      case evict ad of
        Inl e \<Rightarrow> Inl e
      | Inr ad1 \<Rightarrow>
          let ad2 = insert_value ad1 newValue
          in Inr (evaluate ad2 newValue, ad2))"


text \<open>
  A caller that feeds a sequence of data points to one detector, collecting the
  \<open>(isAnomaly, zScore)\<close> pairs; a panic ends the run.
\<close>

fun process_all ::
  "AnomalyDetector \<Rightarrow> DataPoint list \<Rightarrow> fault + ((bool \<times> real) list \<times> AnomalyDetector)" where
  "process_all ad [] = Inr ([], ad)"
| "process_all ad (dp # dps) =
     (case ProcessData ad dp of
        Inl e \<Rightarrow> Inl e
      | Inr (out, ad1) \<Rightarrow>
          (case process_all ad1 dps of
             Inl e \<Rightarrow> Inl e
           | Inr (outs, ad2) \<Rightarrow> Inr (out # outs, ad2)))"

definition fresh_run ::
  "int \<Rightarrow> real \<Rightarrow> DataPoint list \<Rightarrow> fault + ((bool \<times> real) list \<times> AnomalyDetector)" where
  "fresh_run windowSize threshold dps =
     (case NewDetector windowSize threshold of
        Inl e \<Rightarrow> Inl e
      | Inr ad \<Rightarrow> process_all ad dps)"

text \<open>The invariant of the window state (section 3 of the specification).\<close>

definition window_inv :: "AnomalyDetector \<Rightarrow> bool" where
  "window_inv ad \<longleftrightarrow>
     sum_f ad = sum_list (dataWindow ad) \<and>
     sumOfSquares ad = (\<Sum>x\<leftarrow>dataWindow ad. x * x) \<and>
     int (length (dataWindow ad)) \<le> WindowSize ad"

definition last_n :: "nat \<Rightarrow> 'a list \<Rightarrow> 'a list" where
  "last_n n xs = drop (length xs - n) xs"

section \<open>anomaly: the window state in binary64 arithmetic\<close>

text \<open>
  A second embedding of the same lines of the source, with the arithmetic of the program:
  a \<open>float64\<close> is a finite real, an infinity (\<open>Infinity True\<close> is the positive one) or NaN,
  and every operation rounds its exact result to binary64, to nearest with ties to even.
  \<open>Finite x\<close> is a float64 when binary64 represents \<open>x\<close>, as every result of an operation
  is. The two zeros are one value and there is one NaN; each operation is rounded on its
  own, as in the code compiled for amd64 (no fused multiply-add).
\<close>

datatype float64 = Finite real | Infinity bool | NaN

text \<open>\<open>pow2 k\<close> is \<open>2^k\<close> for an integer \<open>k\<close>.\<close>

definition pow2 :: "int \<Rightarrow> real" where
  "pow2 k = (if 0 \<le> k then 2 ^ nat k else 1 / 2 ^ nat (- k))"

text \<open>The nearest integer, the even one of the two when they are equally near.\<close>

definition round_half_even :: "real \<Rightarrow> int" where
  "round_half_even y =
     (let f = \<lfloor>y\<rfloor>; d = y - of_int f
      in if d < 1 / 2 then f else if 1 / 2 < d then f + 1 else if even f then f else f + 1)"

text \<open>
  Rounding to binary64: the exponent \<open>e\<close> of \<open>x\<close> is \<open>floor (log2 |x|)\<close>, and at least
  \<open>-1022\<close> (below that the values are subnormal); the representable values near \<open>x\<close> are the
  multiples of \<open>2^(e - 52)\<close>; a rounded value above \<open>MaxFloat64\<close> overflows to an infinity.
\<close>

definition round64 :: "real \<Rightarrow> float64" where
  "round64 x =
     (if x = 0 then Finite 0
      else
        let e = max \<lfloor>log 2 \<bar>x\<bar>\<rfloor> (- 1022);
            q = pow2 (e - 52);
            r = of_int (round_half_even (x / q)) * q
        in if \<bar>r\<bar> > MaxFloat64 then Infinity (0 < x) else Finite r)"

fun fadd :: "float64 \<Rightarrow> float64 \<Rightarrow> float64" where
  "fadd (Finite a) (Finite b) = round64 (a + b)"
| "fadd (Infinity s) (Infinity s') = (if s = s' then Infinity s else NaN)"
| "fadd (Infinity s) (Finite b) = Infinity s"
| "fadd (Finite a) (Infinity s) = Infinity s"
| "fadd NaN y = NaN"
| "fadd x NaN = NaN"

fun fneg :: "float64 \<Rightarrow> float64" where
  "fneg (Finite a) = Finite (- a)"
| "fneg (Infinity s) = Infinity (\<not> s)"
| "fneg NaN = NaN"

definition fsub :: "float64 \<Rightarrow> float64 \<Rightarrow> float64" where
  "fsub x y = fadd x (fneg y)"

fun fmul :: "float64 \<Rightarrow> float64 \<Rightarrow> float64" where
  "fmul (Finite a) (Finite b) = round64 (a * b)"
| "fmul (Infinity s) (Infinity s') = Infinity (s = s')"
| "fmul (Infinity s) (Finite b) = (if b = 0 then NaN else Infinity (s = (0 < b)))"
| "fmul (Finite a) (Infinity s) = (if a = 0 then NaN else Infinity (s = (0 < a)))"
| "fmul NaN y = NaN"
| "fmul x NaN = NaN"

text \<open>
  The detector with binary64 fields, its constructor, and the state update of
  \<open>ProcessData\<close> (lines 42-51: eviction, then insertion) with rounded arithmetic.
\<close>

record AnomalyDetector64 =
  WindowSize64 :: int
  Threshold64 :: float64
  dataWindow64 :: "float64 list"
  sum64 :: float64
  sumOfSquares64 :: float64

definition NewDetector64 :: "int \<Rightarrow> float64 \<Rightarrow> fault + AnomalyDetector64" where
  "NewDetector64 windowSize threshold =
     (if makeslice_panics windowSize then Inl MakeSliceCapOutOfRange
      else Inr \<lparr>WindowSize64 = windowSize, Threshold64 = threshold, dataWindow64 = [],
                sum64 = Finite 0, sumOfSquares64 = Finite 0\<rparr>)"

definition evict64 :: "AnomalyDetector64 \<Rightarrow> fault + AnomalyDetector64" where
  "evict64 ad =
     (if int (length (dataWindow64 ad)) \<ge> WindowSize64 ad then
        (case dataWindow64 ad of
           [] \<Rightarrow> Inl IndexOutOfRange
         | oldValue # rest \<Rightarrow>
             Inr (ad\<lparr>sum64 := fsub (sum64 ad) oldValue,
                     sumOfSquares64 := fsub (sumOfSquares64 ad) (fmul oldValue oldValue),
                     dataWindow64 := rest\<rparr>))
      else Inr ad)"

definition insert_value64 :: "AnomalyDetector64 \<Rightarrow> float64 \<Rightarrow> AnomalyDetector64" where
  "insert_value64 ad newValue =
     ad\<lparr>sum64 := fadd (sum64 ad) newValue,
        sumOfSquares64 := fadd (sumOfSquares64 ad) (fmul newValue newValue),
        dataWindow64 := dataWindow64 ad @ [newValue]\<rparr>"

definition update64 :: "AnomalyDetector64 \<Rightarrow> float64 \<Rightarrow> fault + AnomalyDetector64" where
  "update64 ad newValue =
     (case evict64 ad of
        Inl e \<Rightarrow> Inl e
      | Inr ad1 \<Rightarrow> Inr (insert_value64 ad1 newValue))"

text \<open>A caller that feeds a sequence of values to one detector; a panic ends the run.\<close>

fun update_all64 :: "AnomalyDetector64 \<Rightarrow> float64 list \<Rightarrow> fault + AnomalyDetector64" where
  "update_all64 ad [] = Inr ad"
| "update_all64 ad (v # vs) =
     (case update64 ad v of
        Inl e \<Rightarrow> Inl e
      | Inr ad1 \<Rightarrow> update_all64 ad1 vs)"

definition fresh_updates64 :: "int \<Rightarrow> float64 \<Rightarrow> float64 list \<Rightarrow> fault + AnomalyDetector64" where
  "fresh_updates64 windowSize threshold vs =
     (case NewDetector64 windowSize threshold of
        Inl e \<Rightarrow> Inl e
      | Inr ad \<Rightarrow> update_all64 ad vs)"

section \<open>Formatting\<close>

text \<open>The decimal rendering that \<open>fmt.Sprintf\<close> gives \<open>%d\<close>.\<close>

fun show_nat :: "nat \<Rightarrow> string" where
  "show_nat n =
     (if n < 10 then [char_of (48 + n)]
      else show_nat (n div 10) @ [char_of (48 + n mod 10)])"

declare show_nat.simps [simp del]

definition show_int :: "int \<Rightarrow> string" where
  "show_int i = (if i < 0 then CHR ''-'' # show_nat (nat (- i)) else show_nat (nat i))"

section \<open>redteam: the fault injector\<close>

text \<open>
  \<open>FaultType\<close> is a Go string type. Instants and durations are integers (nanoseconds); the
  clock reading of a call is its parameter \<open>now\<close>, and a call is instantaneous. The seeded
  generator is the sequence \<open>rand\<close> of the values its \<open>Float64\<close> returns, with the number
  \<open>randCalls\<close> of values drawn so far. Log output is not modelled.
\<close>

type_synonym FaultType = string

datatype any_value = VFloat real | VInt int | VString string | VBool bool

record FaultConfig =
  Type :: FaultType
  Probability :: real
  Duration :: int
  Parameters :: "string \<rightharpoonup> any_value"
  Enabled :: bool

record RedTeam =
  faultConfigs :: "FaultType \<rightharpoonup> FaultConfig"
  activeFaults :: "FaultType \<rightharpoonup> int"
  rand :: "nat \<Rightarrow> real"
  randCalls :: nat

definition NewRedTeam :: "(nat \<Rightarrow> real) \<Rightarrow> RedTeam" where
  "NewRedTeam source =
     \<lparr>faultConfigs = Map.empty, activeFaults = Map.empty, rand = source, randCalls = 0\<rparr>"

definition Float64 :: "RedTeam \<Rightarrow> real \<times> RedTeam" where
  "Float64 rt = (rand rt (randCalls rt), rt\<lparr>randCalls := randCalls rt + 1\<rparr>)"

definition ConfigureFault :: "RedTeam \<Rightarrow> FaultConfig \<Rightarrow> RedTeam" where
  "ConfigureFault rt config =
     (let config1 = config\<lparr>Enabled := True\<rparr>
      in rt\<lparr>faultConfigs := (faultConfigs rt)(Type config1 \<mapsto> config1)\<rparr>)"

definition EnableFault :: "RedTeam \<Rightarrow> FaultType \<Rightarrow> RedTeam" where
  "EnableFault rt faultType =
     (case faultConfigs rt faultType of
        Some config \<Rightarrow>
          rt\<lparr>faultConfigs := (faultConfigs rt)(faultType \<mapsto> config\<lparr>Enabled := True\<rparr>)\<rparr>
      | None \<Rightarrow> rt)"

definition DisableFault :: "RedTeam \<Rightarrow> FaultType \<Rightarrow> RedTeam" where
  "DisableFault rt faultType =
     (case faultConfigs rt faultType of
        Some config \<Rightarrow>
          rt\<lparr>faultConfigs := (faultConfigs rt)(faultType \<mapsto> config\<lparr>Enabled := False\<rparr>),
             activeFaults := (activeFaults rt)(faultType := None)\<rparr>
      | None \<Rightarrow> rt)"

definition ShouldInjectFault :: "RedTeam \<Rightarrow> FaultType \<Rightarrow> int \<Rightarrow> bool \<times> RedTeam" where
  "ShouldInjectFault rt faultType now =
     (case faultConfigs rt faultType of
        None \<Rightarrow> (False, rt)
      | Some config \<Rightarrow>
          if \<not> Enabled config then (False, rt)
          else if (case activeFaults rt faultType of
                     Some activeTime \<Rightarrow> now - activeTime < Duration config
                   | None \<Rightarrow> False)
          then (True, rt)
          else
            (case Float64 rt of
               (u, rt1) \<Rightarrow>
                 if u < Probability config
                 then (True, rt1\<lparr>activeFaults := (activeFaults rt1)(faultType \<mapsto> now)\<rparr>)
                 else (False, rt1)))"

definition CleanupExpiredFaults :: "RedTeam \<Rightarrow> int \<Rightarrow> RedTeam" where
  "CleanupExpiredFaults rt now =
     rt\<lparr>activeFaults :=
          (\<lambda>faultType.
             case activeFaults rt faultType of
               None \<Rightarrow> None
             | Some startTime \<Rightarrow>
                 (case faultConfigs rt faultType of
                    Some config \<Rightarrow>
                      if now - startTime \<ge> Duration config then None else Some startTime
                  | None \<Rightarrow> Some startTime))\<rparr>"

section \<open>blueteam: the healer\<close>

text \<open>
  \<open>HealingStrategy\<close> and \<open>IssueType\<close> are Go string types, so a caller can pass any string.
  The monitoring goroutine and its channel are not modelled.
\<close>

type_synonym HealingStrategy = string
type_synonym IssueType = string

definition StrategyResetDetector :: HealingStrategy where
  "StrategyResetDetector = ''reset_detector''"

definition StrategyCircuitBreaker :: HealingStrategy where
  "StrategyCircuitBreaker = ''circuit_breaker''"

definition StrategyFallbackMode :: HealingStrategy where
  "StrategyFallbackMode = ''fallback_mode''"

definition StrategyResourceCleanup :: HealingStrategy where
  "StrategyResourceCleanup = ''resource_cleanup''"

definition StrategyConfigReload :: HealingStrategy where
  "StrategyConfigReload = ''config_reload''"

record HealingAction =
  ID :: string
  Type_ha :: IssueType
  Strategy :: HealingStrategy
  Description :: string
  Timestamp_ha :: int
  Status :: string
  Success :: bool
  Error :: string

record BlueTeam =
  healingActions :: "HealingAction list"
  maxActions :: int
  healingEnabled :: bool
  monitorInterval :: int

record BlueTeamConfig =
  MaxActions :: int
  MonitorInterval :: int
  HealingEnabled :: bool

definition NewBlueTeam :: "BlueTeamConfig \<Rightarrow> BlueTeam" where
  "NewBlueTeam config =
     (let maxActions1 = (if MaxActions config \<le> 0 then 1000 else MaxActions config);
          monitorInterval1 =
            (if MonitorInterval config \<le> 0 then 5 * 60 * 1000000000 else MonitorInterval config)
      in \<lparr>healingActions = [], maxActions = maxActions1,
          healingEnabled = HealingEnabled config, monitorInterval = monitorInterval1\<rparr>)"

definition executeDetectorReset :: "HealingAction \<Rightarrow> bool \<times> HealingAction" where
  "executeDetectorReset action =
     (True, action\<lparr>Description := Description action @ '' - Detector reset completed''\<rparr>)"

definition executeCircuitBreaker :: "HealingAction \<Rightarrow> bool \<times> HealingAction" where
  "executeCircuitBreaker action =
     (True, action\<lparr>Description := Description action @ '' - Circuit breaker activated''\<rparr>)"

definition executeFallbackMode :: "HealingAction \<Rightarrow> bool \<times> HealingAction" where
  "executeFallbackMode action =
     (True, action\<lparr>Description := Description action @ '' - Fallback mode activated''\<rparr>)"

definition executeResourceCleanup :: "HealingAction \<Rightarrow> bool \<times> HealingAction" where
  "executeResourceCleanup action =
     (True, action\<lparr>Description := Description action @ '' - Resource cleanup completed''\<rparr>)"

definition executeConfigReload :: "HealingAction \<Rightarrow> bool \<times> HealingAction" where
  "executeConfigReload action =
     (True, action\<lparr>Description := Description action @ '' - Configuration reloaded''\<rparr>)"

definition executeHealingStrategy :: "HealingStrategy \<Rightarrow> HealingAction \<Rightarrow> bool \<times> HealingAction" where
  "executeHealingStrategy strategy action =
     (if strategy = StrategyResetDetector then executeDetectorReset action
      else if strategy = StrategyCircuitBreaker then executeCircuitBreaker action
      else if strategy = StrategyFallbackMode then executeFallbackMode action
      else if strategy = StrategyResourceCleanup then executeResourceCleanup action
      else if strategy = StrategyConfigReload then executeConfigReload action
      else (False, action\<lparr>Error := ''Unknown healing strategy: '' @ strategy\<rparr>))"

text \<open>
  The action is built, the strategy runs on it, the outcome is written into it, and it is
  appended to the history; the history then loses its first entry when it is over
  \<open>maxActions\<close> (\<open>bt.healingActions[1:]\<close>).
\<close>

definition initiateHealing ::
  "BlueTeam \<Rightarrow> IssueType \<Rightarrow> HealingStrategy \<Rightarrow> string \<Rightarrow> int \<Rightarrow> HealingAction \<times> BlueTeam" where
  "initiateHealing bt issueType strategy description now =
     (let action0 = \<lparr>ID = ''heal_'' @ show_int now @ ''_'' @ issueType,
                      Type_ha = issueType, Strategy = strategy, Description = description,
                      Timestamp_ha = now, Status = ''initiated'', Success = False, Error = []\<rparr>
      in case executeHealingStrategy strategy action0 of
           (success, action1) \<Rightarrow>
             let action2 =
                   (if success then action1\<lparr>Status := ''completed'', Success := True\<rparr>
                    else action1\<lparr>Status := ''failed'', Success := False,
                                 Error := ''Healing strategy execution failed''\<rparr>);
                 actions1 = healingActions bt @ [action2];
                 actions2 = (if int (length actions1) > maxActions bt then drop 1 actions1
                             else actions1)
             in (action2, bt\<lparr>healingActions := actions2\<rparr>))"

definition HealOnDemand ::
  "BlueTeam \<Rightarrow> IssueType \<Rightarrow> HealingStrategy \<Rightarrow> int \<Rightarrow> HealingAction \<times> BlueTeam" where
  "HealOnDemand bt issueType strategy now =
     (let description =
            ''On-demand healing for '' @ issueType @ '' using '' @ strategy @ '' strategy''
      in initiateHealing bt issueType strategy description now)"

text \<open>A caller that heals on demand once per listed instant, with one issue and strategy.\<close>

fun heal_repeatedly :: "BlueTeam \<Rightarrow> IssueType \<Rightarrow> HealingStrategy \<Rightarrow> int list \<Rightarrow> BlueTeam" where
  "heal_repeatedly bt issueType strategy [] = bt"
| "heal_repeatedly bt issueType strategy (now # nows) =
     heal_repeatedly (snd (HealOnDemand bt issueType strategy now)) issueType strategy nows"

section \<open>audit: the ledger\<close>

text \<open>
  \<open>EventType\<close> and \<open>ComplianceStatus\<close> are Go string types. The file encoder and the console
  log are not modelled: their failures are only logged and never change the store. The
  counter is an unbounded integer (the source's \<open>int64\<close> cannot wrap in practice).
\<close>

type_synonym EventType = string
type_synonym ComplianceStatus = string

definition EventSecurity :: EventType where
  "EventSecurity = ''security''"

definition StatusCompliant :: ComplianceStatus where
  "StatusCompliant = ''compliant''"

record AuditEvent =
  ID_ev :: string
  Timestamp_ev :: int
  Type_ev :: EventType
  Status_ev :: ComplianceStatus
  Message :: string
  Details :: "string \<rightharpoonup> any_value"
  SourceIP :: string
  UserAgent :: string
  RequestID :: string
  ProcessingTimeNS :: int
  Component :: string
  Protocol :: string

record Auditor =
  events :: "AuditEvent list"
  maxEvents :: int
  eventCounter :: int

record AuditorConfig =
  OutputFile :: string
  MaxEvents :: int
  EnableConsole :: bool

text \<open>
  \<open>a.events[removeCount:]\<close> panics when \<open>removeCount\<close> is larger than the length of the
  slice. Go's integer division truncates; \<open>maxEvents\<close> is positive in every constructed
  auditor, and there it agrees with \<open>div\<close>.
\<close>

definition LogEvent :: "Auditor \<Rightarrow> AuditEvent \<Rightarrow> int \<Rightarrow> fault + Auditor" where
  "LogEvent a event now =
     (let counter = eventCounter a + 1;
          event1 = event\<lparr>ID_ev := ''evt_'' @ show_int now @ ''_'' @ show_int counter,
                          Timestamp_ev := now\<rparr>;
          events1 = events a @ [event1]
      in if int (length events1) > maxEvents a then
           (let removeCount0 = maxEvents a div 10;
                removeCount = (if removeCount0 < 100 then 100 else removeCount0)
            in if removeCount > int (length events1) then Inl SliceBoundsOutOfRange
               else Inr (a\<lparr>eventCounter := counter,
                            events := drop (nat removeCount) events1\<rparr>))
         else Inr (a\<lparr>eventCounter := counter, events := events1\<rparr>))"

text \<open>\<open>fileOpens\<close> tells whether \<open>os.OpenFile\<close> succeeds.\<close>

definition NewAuditor :: "AuditorConfig \<Rightarrow> bool \<Rightarrow> int \<Rightarrow> fault + Auditor" where
  "NewAuditor config fileOpens now =
     (let maxEvents1 = (if MaxEvents config \<le> 0 then 100000 else MaxEvents config)
      in if \<not> fileOpens then Inl OpenFileError
         else LogEvent \<lparr>events = [], maxEvents = maxEvents1, eventCounter = 0\<rparr>
                \<lparr>ID_ev = [], Timestamp_ev = 0, Type_ev = EventSecurity,
                 Status_ev = StatusCompliant, Message = ''Audit system initialized'',
                 Details = [''max_events'' \<mapsto> VInt maxEvents1,
                            ''output_file'' \<mapsto> VString (OutputFile config),
                            ''console_log'' \<mapsto> VBool (EnableConsole config)],
                 SourceIP = [], UserAgent = [], RequestID = [], ProcessingTimeNS = 0,
                 Component = ''auditor'', Protocol = []\<rparr> now)"

text \<open>A caller that logs the listed events, one per instant; a panic ends the run.\<close>

fun log_all :: "Auditor \<Rightarrow> (AuditEvent \<times> int) list \<Rightarrow> fault + Auditor" where
  "log_all a [] = Inr a"
| "log_all a ((event, now) # rest) =
     (case LogEvent a event now of
        Inl e \<Rightarrow> Inl e
      | Inr a1 \<Rightarrow> log_all a1 rest)"

section \<open>hypervisor: the compliance monitor\<close>

record Hypervisor =
  latencySamples :: "real list"
  decisionOutcomes :: "bool list"
  revenueTracking :: "real list"
  maxSamples :: int

text \<open>
  The body of the inner loop of the bubble sort: compare the neighbours at \<open>j\<close> and
  \<open>j + 1\<close> and swap them when they are out of order.
\<close>

definition compare_swap :: "real list \<Rightarrow> nat \<Rightarrow> real list" where
  "compare_swap samples j =
     (if samples ! j > samples ! (j + 1)
      then samples[j := samples ! (j + 1), j + 1 := samples ! j]
      else samples)"

text \<open>The inner loop \<open>for j := 0; j < len(samples)-1-i; j++\<close>.\<close>

definition inner_loop :: "real list \<Rightarrow> nat \<Rightarrow> real list" where
  "inner_loop samples i = foldl compare_swap samples [0..<length samples - 1 - i]"

text \<open>The outer loop \<open>for i := 0; i < len(samples); i++\<close>.\<close>

definition bubble_sort :: "real list \<Rightarrow> real list" where
  "bubble_sort samples = foldl inner_loop samples [0..<length samples]"

text \<open>
  \<open>int(float64(len(samples)) * 0.95)\<close> is the floor of the product, which is not negative.
\<close>

definition calculateP95Latency :: "Hypervisor \<Rightarrow> real" where
  "calculateP95Latency h =
     (if length (latencySamples h) = 0 then 0
      else
        let samples = bubble_sort (latencySamples h);
            p95Index0 = nat \<lfloor>real (length samples) * 0.95\<rfloor>;
            p95Index = (if p95Index0 \<ge> length samples then length samples - 1 else p95Index0)
        in samples ! p95Index)"

text \<open>One pass of the inner loop over the first \<open>m\<close> neighbour pairs, and the first \<open>i\<close> passes.\<close>

definition pass :: "nat \<Rightarrow> real list \<Rightarrow> real list" where
  "pass m s = foldl compare_swap s [0..<m]"

definition passes :: "nat \<Rightarrow> real list \<Rightarrow> real list" where
  "passes i s = foldl inner_loop s [0..<i]"

section \<open>Concrete runs\<close>

text \<open>The binary64 value \<open>2^600\<close>, whose square overflows.\<close>

definition huge_value :: float64 where
  "huge_value = Finite (2 ^ 600)"

text \<open>
  A fault configured with probability 1 and a duration of 10, passed to \<open>ConfigureFault\<close>
  with \<open>Enabled = false\<close>, on an injector whose generator returns 0.5 at every draw.
\<close>

definition latency_always :: FaultConfig where
  "latency_always =
     \<lparr>Type = ''latency'', Probability = 1, Duration = 10, Parameters = Map.empty,
      Enabled = False\<rparr>"

definition armed_injector :: RedTeam where
  "armed_injector = ConfigureFault (NewRedTeam (\<lambda>_. 1 / 2)) latency_always"

text \<open>The same injector after its first call for that fault, at instant 0.\<close>

definition active_injector :: RedTeam where
  "active_injector = snd (ShouldInjectFault armed_injector ''latency'' 0)"

text \<open>A healer with room for 20 actions, and the same healer after 20 on-demand healings.\<close>

definition small_team :: BlueTeam where
  "small_team = NewBlueTeam \<lparr>MaxActions = 20, MonitorInterval = 0, HealingEnabled = True\<rparr>"

definition full_history :: BlueTeam where
  "full_history =
     heal_repeatedly small_team ''high_latency'' ''circuit_breaker''
       [1, 2, 3, 4, 5, 6, 7, 8, 9, 10, 11, 12, 13, 14, 15, 16, 17, 18, 19, 20]"

text \<open>A healer with room for one action, after one on-demand healing.\<close>

definition one_slot_used :: BlueTeam where
  "one_slot_used =
     snd (HealOnDemand
            (NewBlueTeam \<lparr>MaxActions = 1, MonitorInterval = 0, HealingEnabled = True\<rparr>)
            ''high_latency'' ''circuit_breaker'' 1)"

definition known_strategy :: "HealingStrategy \<Rightarrow> bool" where
  "known_strategy s \<longleftrightarrow>
     s = StrategyResetDetector \<or> s = StrategyCircuitBreaker \<or> s = StrategyFallbackMode \<or>
     s = StrategyResourceCleanup \<or> s = StrategyConfigReload"

text \<open>An auditor made by \<open>NewAuditor\<close> (the log file opens) that then logs the listed events.\<close>

definition audit_session ::
  "AuditorConfig \<Rightarrow> int \<Rightarrow> (AuditEvent \<times> int) list \<Rightarrow> fault + Auditor" where
  "audit_session config now entries =
     (case NewAuditor config True now of
        Inl e \<Rightarrow> Inl e
      | Inr a \<Rightarrow> log_all a entries)"

definition probe_event :: AuditEvent where
  "probe_event =
     \<lparr>ID_ev = [], Timestamp_ev = 0, Type_ev = ''decision'', Status_ev = StatusCompliant,
      Message = ''Decision processed'', Details = Map.empty, SourceIP = [], UserAgent = [],
      RequestID = [], ProcessingTimeNS = 0, Component = ''anomaly_detector'', Protocol = []\<rparr>"

definition capacity_50 :: AuditorConfig where
  "capacity_50 = \<lparr>OutputFile = ''audit.log'', MaxEvents = 50, EnableConsole = True\<rparr>"

section \<open>Properties of the detector\<close>

lemma last_n_append_step:
  "last_n n (last_n n xs @ ys) = last_n n (xs @ ys)"
  unfolding last_n_def by (cases "length xs \<le> n") (auto simp: ac_simps)

lemma ProcessData_step:
  assumes "1 \<le> WindowSize ad" and "window_inv ad"
  shows "\<exists>out ad'. ProcessData ad dp = Inr (out, ad') \<and> window_inv ad' \<and>
           WindowSize ad' = WindowSize ad \<and> Threshold ad' = Threshold ad \<and>
           dataWindow ad' = last_n (nat (WindowSize ad)) (dataWindow ad @ [Value dp])"
proof (cases "int (length (dataWindow ad)) \<ge> WindowSize ad")
  case True
  with assms obtain x rest where w: "dataWindow ad = x # rest"
    by (cases "dataWindow ad") auto
  from True assms w have len: "int (length rest) + 1 = WindowSize ad"
    by (simp add: window_inv_def)
  then have "nat (WindowSize ad) = Suc (length rest)" by linarith
  with True assms w show ?thesis
    by (simp add: ProcessData_def evict_def insert_value_def window_inv_def last_n_def Let_def)
next
  case False
  then have "length (dataWindow ad) + 1 \<le> nat (WindowSize ad)" by linarith
  with False assms show ?thesis
    by (simp add: ProcessData_def evict_def insert_value_def window_inv_def last_n_def Let_def)
qed

lemma process_all_inv:
  assumes "1 \<le> WindowSize ad" and "window_inv ad"
  shows "\<exists>outs ad'. process_all ad dps = Inr (outs, ad') \<and> window_inv ad' \<and>
           length outs = length dps \<and>
           WindowSize ad' = WindowSize ad \<and> Threshold ad' = Threshold ad \<and>
           dataWindow ad' = last_n (nat (WindowSize ad)) (dataWindow ad @ map Value dps)"
  using assms
proof (induction dps arbitrary: ad)
  case Nil
  then have "int (length (dataWindow ad)) \<le> WindowSize ad"
    by (simp add: window_inv_def)
  then have "length (dataWindow ad) \<le> nat (WindowSize ad)"
    by linarith
  with Nil show ?case by (simp add: last_n_def)
next
  case (Cons dp dps)
  from ProcessData_step [OF Cons.prems, of dp] obtain out ad1 where
    s: "ProcessData ad dp = Inr (out, ad1)" "window_inv ad1"
       "WindowSize ad1 = WindowSize ad" "Threshold ad1 = Threshold ad"
       "dataWindow ad1 = last_n (nat (WindowSize ad)) (dataWindow ad @ [Value dp])"
    by blast
  from Cons.prems s have "1 \<le> WindowSize ad1" by simp
  from Cons.IH [OF this s(2)] obtain outs ad2 where
    r: "process_all ad1 dps = Inr (outs, ad2)" "window_inv ad2" "length outs = length dps"
       "WindowSize ad2 = WindowSize ad1" "Threshold ad2 = Threshold ad1"
       "dataWindow ad2 = last_n (nat (WindowSize ad1)) (dataWindow ad1 @ map Value dps)"
    by blast
  have "dataWindow ad2 = last_n (nat (WindowSize ad)) (dataWindow ad @ map Value (dp # dps))"
    using r(6) s(3,5) last_n_append_step [of "nat (WindowSize ad)" "dataWindow ad @ [Value dp]" "map Value dps"]
    by simp
  with s r show ?case by simp
qed

lemma NewDetector_inv:
  "NewDetector w t = Inr d \<Longrightarrow>
     0 \<le> w \<and> window_inv d \<and> WindowSize d = w \<and> Threshold d = t \<and> dataWindow d = []"
  by (auto simp: NewDetector_def window_inv_def makeslice_panics_def split: if_splits)


text \<open>Rounding at the values that the runs below meet.\<close>

lemma pow2_pos: "0 < pow2 k"
  by (simp add: pow2_def)

lemma pow2_powr: "pow2 k = 2 powr real_of_int k"
  by (simp add: pow2_def powr_real_of_int inverse_eq_divide)

lemma round_half_even_of_int: "round_half_even (of_int m) = m"
  by (simp add: round_half_even_def)

lemma round64_at:
  assumes "pow2 e \<le> \<bar>x\<bar>" and "\<bar>x\<bar> < pow2 (e + 1)" and "- 1022 \<le> e"
  shows "round64 x =
           (if \<bar>of_int (round_half_even (x / pow2 (e - 52))) * pow2 (e - 52)\<bar> > MaxFloat64
            then Infinity (0 < x)
            else Finite (of_int (round_half_even (x / pow2 (e - 52))) * pow2 (e - 52)))"
proof -
  from assms(1) pow2_pos [of e] have x: "x \<noteq> 0" "0 < \<bar>x\<bar>" by auto
  have "\<lfloor>log 2 \<bar>x\<bar>\<rfloor> = e"
    using assms(1,2) x(2) by (simp add: floor_log_eq_powr_iff pow2_powr)
  with assms(3) x(1) show ?thesis
    by (simp add: round64_def Let_def)
qed

lemma MaxFloat64_big: "2 ^ 53 \<le> MaxFloat64"
proof -
  have "(2::real) ^ 1 \<le> 2 ^ 971"
    by (rule power_increasing) simp_all
  then have "(2::real) ^ 52 * 2 \<le> (2 ^ 53 - 1) * 2 ^ 971"
    by (intro mult_mono) simp_all
  then show ?thesis by (simp add: MaxFloat64_def)
qed

lemma round64_int:
  assumes "n \<noteq> 0" and "\<bar>n\<bar> < 2 ^ 53"
  shows "round64 (of_int n) = Finite (of_int n)"
proof -
  define x where "x = real_of_int n"
  define e where "e = \<lfloor>log 2 \<bar>x\<bar>\<rfloor>"
  have x1: "1 \<le> \<bar>x\<bar>" using assms(1) by (simp add: x_def)
  have x2: "\<bar>x\<bar> < 2 ^ 53"
  proof -
    have "real_of_int \<bar>n\<bar> < real_of_int (2 ^ 53)" using assms(2) by (simp only: of_int_less_iff)
    then show ?thesis by (simp add: x_def)
  qed
  have pos: "0 < \<bar>x\<bar>" using x1 by simp
  have b: "2 powr real_of_int e \<le> \<bar>x\<bar>" "\<bar>x\<bar> < 2 powr real_of_int (e + 1)"
    using floor_log_eq_powr_iff [of "\<bar>x\<bar>" 2 e] pos by (simp_all add: e_def)
  have e0: "0 \<le> e"
    unfolding e_def using x1 by simp
  have p: "2 powr real_of_int 53 = (2::real) ^ 53"
    by (simp add: powr_numeral)
  have lt: "2 powr real_of_int e < 2 powr real_of_int 53"
    unfolding p using b(1) x2 by linarith
  have "real_of_int e < real_of_int 53"
    by (rule powr_less_cancel [OF lt]) simp
  then have e52: "e \<le> 52" by linarith
  define k where "k = nat (52 - e)"
  have q: "pow2 (e - 52) = 1 / 2 ^ k"
    using e52 by (cases "e = 52") (simp_all add: pow2_def k_def)
  have "x / pow2 (e - 52) = real_of_int (n * 2 ^ k)"
    by (simp add: q x_def)
  then have r: "of_int (round_half_even (x / pow2 (e - 52))) * pow2 (e - 52) = x"
    by (simp only: round_half_even_of_int) (simp add: q x_def)
  have "\<bar>x\<bar> \<le> MaxFloat64" using x2 MaxFloat64_big by linarith
  moreover have "pow2 e \<le> \<bar>x\<bar>" "\<bar>x\<bar> < pow2 (e + 1)"
    using b by (simp_all add: pow2_powr)
  moreover have "- 1022 \<le> e" using e0 by simp
  ultimately show ?thesis
    using round64_at [of e x] r by (simp add: x_def)
qed

lemma round64_numeral:
  "(numeral k :: int) < 2 ^ 53 \<Longrightarrow> round64 (numeral k) = Finite (numeral k)"
  using round64_int [of "numeral k"] by simp

lemma round64_zero: "round64 0 = Finite 0"
  by (simp add: round64_def)







lemma MaxFloat64_less: "MaxFloat64 < 2 ^ 1024"
proof -
  have "((2::real) ^ 53 - 1) * 2 ^ 971 < 2 ^ 53 * 2 ^ 971"
    by (intro mult_strict_right_mono) simp_all
  also have "\<dots> = 2 ^ 1024" by (simp add: power_add [symmetric])
  finally show ?thesis by (simp add: MaxFloat64_def)
qed

lemma MaxFloat64_ge: "2 ^ 1023 \<le> MaxFloat64"
proof -
  have "(2::real) ^ 52 * 2 ^ 971 \<le> (2 ^ 53 - 1) * 2 ^ 971"
    by (intro mult_right_mono) simp_all
  moreover have "(2::real) ^ 52 * 2 ^ 971 = 2 ^ 1023" by (simp add: power_add [symmetric])
  ultimately show ?thesis by (simp add: MaxFloat64_def)
qed

lemma round_half_even_near:
  assumes "0 \<le> d" and "d < 1 / 2"
  shows "round_half_even (real_of_int m + d) = m"
proof -
  have "\<lfloor>real_of_int m + d\<rfloor> = m"
    using assms by (simp add: floor_eq_iff)
  with assms show ?thesis
    by (simp add: round_half_even_def)
qed

lemma round64_near_2_600:
  assumes "0 \<le> c" and "c \<le> 4"
  shows "round64 (2 ^ 600 + c) = Finite (2 ^ 600)"
proof -
  let ?x = "(2::real) ^ 600 + c"
  have q: "pow2 (600 - 52) = 2 ^ 548" by (simp add: pow2_def)
  have s: "(2::real) ^ 600 = 2 ^ 52 * 2 ^ 548" by (simp add: power_add [symmetric])
  have big: "(8::real) \<le> 2 ^ 548"
  proof -
    have "(2::real) ^ 3 \<le> 2 ^ 548" by (rule power_increasing) simp_all
    then show ?thesis by simp
  qed
  have div: "?x / 2 ^ 548 = 2 ^ 52 + c / 2 ^ 548"
    by (simp add: s add_divide_distrib)
  have frac: "0 \<le> c / 2 ^ 548" "c / 2 ^ 548 < 1 / 2"
    using assms big by (simp_all add: field_simps)
  have "?x / pow2 (600 - 52) = real_of_int (2 ^ 52) + c / 2 ^ 548"
    unfolding q div by simp
  then have rh: "round_half_even (?x / pow2 (600 - 52)) = 2 ^ 52"
    by (simp only: round_half_even_near [OF frac])
  have lo: "pow2 600 \<le> \<bar>?x\<bar>" using assms by (simp add: pow2_def)
  have "?x < 2 ^ 600 + 2 ^ 600"
  proof -
    have "(2::real) ^ 3 \<le> 2 ^ 600" by (rule power_increasing) simp_all
    with assms show ?thesis by simp
  qed
  then have hi: "\<bar>?x\<bar> < pow2 (600 + 1)" using assms by (simp add: pow2_def nat_add_distrib)
  have "(2::real) ^ 600 \<le> 2 ^ 1023" by (rule power_increasing) simp_all
  with MaxFloat64_ge have m: "\<not> \<bar>(2::real) ^ 52 * 2 ^ 548\<bar> > MaxFloat64"
    unfolding s [symmetric] by simp
  from round64_at [OF lo hi] rh q m show ?thesis
    by (simp add: s)
qed

lemma round64_2_1200: "round64 (2 ^ 600 * 2 ^ 600) = Infinity True"
proof -
  let ?x = "(2::real) ^ 600 * 2 ^ 600"
  have x: "?x = 2 ^ 1200" by (simp add: power_add [symmetric])
  have q: "pow2 (1200 - 52) = 2 ^ 1148" by (simp add: pow2_def)
  have s: "(2::real) ^ 1200 = 2 ^ 52 * 2 ^ 1148" by (simp add: power_add [symmetric])
  have "?x / pow2 (1200 - 52) = real_of_int (2 ^ 52)"
    unfolding x q s by simp
  then have rh: "round_half_even (?x / pow2 (1200 - 52)) = 2 ^ 52"
    by (simp only: round_half_even_of_int)
  have lo: "pow2 1200 \<le> \<bar>?x\<bar>" unfolding x by (simp add: pow2_def)
  have "(2::real) ^ 1200 < 2 ^ 1201" by (rule power_strict_increasing) simp_all
  then have hi: "\<bar>?x\<bar> < pow2 (1200 + 1)" unfolding x by (simp add: pow2_def nat_add_distrib)
  have "(2::real) ^ 1024 \<le> 2 ^ 1200" by (rule power_increasing) simp_all
  with MaxFloat64_less have m: "\<bar>(2::real) ^ 52 * 2 ^ 1148\<bar> > MaxFloat64"
    unfolding s [symmetric] by simp
  have "0 < ?x" by simp
  with round64_at [OF lo hi] rh q m show ?thesis
    by (simp del: power_numeral)
qed

lemma huge_value_arith:
  "fadd (Finite 0) huge_value = huge_value"
  "fadd huge_value (Finite 3) = huge_value"
  "fadd huge_value (Finite 4) = huge_value"
  "fmul huge_value huge_value = Infinity True"
  "fsub huge_value huge_value = Finite 0"
  using round64_near_2_600 [of 0] round64_near_2_600 [of 3] round64_near_2_600 [of 4]
    round64_2_1200
  by (simp_all add: huge_value_def fsub_def round64_zero del: power_numeral)

text \<open>
  With window size 3 the values \<open>2^600\<close>, 3, 4, 5 leave the window 3, 4, 5 with the running
  sum 5 and the running sum of squares NaN: the square of the first value overflows, and its
  eviction subtracts an infinity from an infinity.
\<close>

lemma fsub_Infinity_same: "fsub (Infinity s) (Infinity s) = NaN"
  by (simp add: fsub_def)

lemma window_sums_binary64_overflow:
  "fresh_updates64 3 (Finite 2) [huge_value, Finite 3, Finite 4, Finite 5] =
     Inr \<lparr>WindowSize64 = 3, Threshold64 = Finite 2,
          dataWindow64 = [Finite 3, Finite 4, Finite 5],
          sum64 = Finite 5, sumOfSquares64 = NaN\<rparr>"
  by (simp add: fresh_updates64_def NewDetector64_def makeslice_panics_def maxAlloc_def
      update64_def evict64_def insert_value64_def huge_value_arith round64_numeral
      fsub_Infinity_same)




lemma ProcessData_empty_nonpositive:
  "WindowSize ad \<le> 0 \<Longrightarrow> dataWindow ad = [] \<Longrightarrow> ProcessData ad dp = Inl IndexOutOfRange"
  by (simp add: ProcessData_def evict_def)

text \<open>
  Claim C9. \<open>ProcessData\<close> never panics on a detector that \<open>NewDetector\<close> returned for a
  window size of at least 1. With a window size of 0 or less the first call does not return:
  a detector whose window size is not positive and whose window is empty takes the eviction
  branch and panics on \<open>dataWindow[0]\<close>; that is the detector \<open>NewDetector\<close> returns for the
  size 0, and for a negative size \<open>NewDetector\<close> itself already panics.
\<close>

theorem ProcessData_total_iff_positive_window:
  "(1 \<le> w \<and> NewDetector w t = Inr d \<longrightarrow> (\<exists>r. process_all d dps = Inr r)) \<and>
   (w \<le> 0 \<and> NewDetector w t = Inr d \<longrightarrow> ProcessData d dp = Inl IndexOutOfRange) \<and>
   (w \<le> 0 \<longrightarrow> (\<exists>e. fresh_run w t (dp # dps) = Inl e)) \<and>
   fresh_run 0 t (dp # dps) = Inl IndexOutOfRange \<and>
   (WindowSize ad \<le> 0 \<and> dataWindow ad = [] \<longrightarrow> ProcessData ad dp = Inl IndexOutOfRange)"
proof (intro conjI impI)
  assume a: "1 \<le> w \<and> NewDetector w t = Inr d"
  from NewDetector_inv [of w t d] a have d: "window_inv d" "WindowSize d = w" by simp_all
  from a d have "1 \<le> WindowSize d" by simp
  from process_all_inv [OF this d(1), of dps]
  show "\<exists>r. process_all d dps = Inr r" by auto
next
  assume a: "w \<le> 0 \<and> NewDetector w t = Inr d"
  from NewDetector_inv [of w t d] a have "WindowSize d \<le> 0" "dataWindow d = []" by simp_all
  then show "ProcessData d dp = Inl IndexOutOfRange"
    by (rule ProcessData_empty_nonpositive)
next
  assume "w \<le> 0"
  show "\<exists>e. fresh_run w t (dp # dps) = Inl e"
  proof (cases "w < 0")
    case True
    then show ?thesis by (simp add: fresh_run_def NewDetector_def makeslice_panics_def)
  next
    case False
    with \<open>w \<le> 0\<close> have "w = 0" by simp
    then show ?thesis
      by (simp add: fresh_run_def NewDetector_def makeslice_panics_def maxAlloc_def
          ProcessData_def evict_def)
  qed
next
  show "fresh_run 0 t (dp # dps) = Inl IndexOutOfRange"
    by (simp add: fresh_run_def NewDetector_def makeslice_panics_def maxAlloc_def
        ProcessData_def evict_def)
next
  assume "WindowSize ad \<le> 0 \<and> dataWindow ad = []"
  then show "ProcessData ad dp = Inl IndexOutOfRange"
    by (simp add: ProcessData_empty_nonpositive)
qed

theorem ProcessData_total_iff_positive_window_witness:
  "(1::int) \<le> 1 \<and>
   NewDetector 1 2 = Inr \<lparr>WindowSize = 1, Threshold = 2, dataWindow = [], sum_f = 0,
                          sumOfSquares = 0\<rparr> \<and>
   (\<exists>r. process_all \<lparr>WindowSize = 1, Threshold = 2, dataWindow = [], sum_f = 0,
                       sumOfSquares = 0\<rparr>
           [\<lparr>Timestamp = 1, Value = 4\<rparr>, \<lparr>Timestamp = 2, Value = 9\<rparr>] = Inr r) \<and>
   (0::int) \<le> 0 \<and>
   NewDetector 0 2 = Inr \<lparr>WindowSize = 0, Threshold = 2, dataWindow = [], sum_f = 0,
                          sumOfSquares = 0\<rparr> \<and>
   ProcessData \<lparr>WindowSize = 0, Threshold = 2, dataWindow = [], sum_f = 0, sumOfSquares = 0\<rparr>
      \<lparr>Timestamp = 1, Value = 4\<rparr> = Inl IndexOutOfRange \<and>
   (\<exists>e. fresh_run 0 2 [\<lparr>Timestamp = 1, Value = 4\<rparr>] = Inl e) \<and>
   WindowSize \<lparr>WindowSize = - 1, Threshold = 2, dataWindow = [], sum_f = 0, sumOfSquares = 0\<rparr>
     \<le> 0 \<and>
   ProcessData \<lparr>WindowSize = - 1, Threshold = 2, dataWindow = [], sum_f = 0, sumOfSquares = 0\<rparr>
      \<lparr>Timestamp = 1, Value = 4\<rparr> = Inl IndexOutOfRange"
proof -
  have n1: "NewDetector 1 2 = Inr \<lparr>WindowSize = 1, Threshold = 2, dataWindow = [], sum_f = 0,
                          sumOfSquares = 0\<rparr>"
    by (simp add: NewDetector_def makeslice_panics_def maxAlloc_def)
  have n0: "NewDetector 0 2 = Inr \<lparr>WindowSize = 0, Threshold = 2, dataWindow = [], sum_f = 0,
                          sumOfSquares = 0\<rparr>"
    by (simp add: NewDetector_def makeslice_panics_def maxAlloc_def)
  from ProcessData_total_iff_positive_window
      [of 1 2 "\<lparr>WindowSize = 1, Threshold = 2, dataWindow = [], sum_f = 0, sumOfSquares = 0\<rparr>"
        "[\<lparr>Timestamp = 1, Value = 4\<rparr>, \<lparr>Timestamp = 2, Value = 9\<rparr>]"
        "\<lparr>Timestamp = 1, Value = 4\<rparr>"
        "\<lparr>WindowSize = - 1, Threshold = 2, dataWindow = [], sum_f = 0, sumOfSquares = 0\<rparr>"]
    ProcessData_total_iff_positive_window
      [of 0 2 "\<lparr>WindowSize = 0, Threshold = 2, dataWindow = [], sum_f = 0, sumOfSquares = 0\<rparr>"
        "[]" "\<lparr>Timestamp = 1, Value = 4\<rparr>"
        "\<lparr>WindowSize = - 1, Threshold = 2, dataWindow = [], sum_f = 0, sumOfSquares = 0\<rparr>"]
    n1 n0
  show ?thesis by simp
qed

text \<open>\<open>ProcessData\<close> reads the value of a data point and never its timestamp.\<close>

lemma ProcessData_Value_only:
  "Value dp = Value dp' \<Longrightarrow> ProcessData ad dp = ProcessData ad dp'"
  by (simp add: ProcessData_def)

lemma process_all_Value_only:
  "map Value dps = map Value dps' \<Longrightarrow> process_all ad dps = process_all ad dps'"
proof (induction dps arbitrary: ad dps')
  case Nil
  then show ?case by simp
next
  case (Cons dp dps)
  then obtain dp' ds' where e: "dps' = dp' # ds'" "Value dp = Value dp'" "map Value dps = map Value ds'"
    by (cases dps') auto
  have "ProcessData ad dp = ProcessData ad dp'"
    using e(2) by (rule ProcessData_Value_only)
  moreover have "\<And>a. process_all a dps = process_all a ds'"
    using Cons.IH e(3) by blast
  ultimately show ?case by (simp add: e(1) split: sum.splits prod.splits)
qed

text \<open>
  A window of \<open>n \<ge> 2\<close> identical values \<open>v\<close>, in exact arithmetic. The same value again is
  not an anomaly, with z-score 0. A different value enters the window before the statistics are taken, so the
  standard deviation is not zero: with \<open>k\<close> copies of \<open>v\<close> left in the window the z-score is
  \<open>sqrt k\<close>, whatever the two values are, and it is compared with the threshold.
\<close>

lemma sum_list_replicate_real: "sum_list (replicate n (v::real)) = real n * v"
  by (induction n) (simp_all add: algebra_simps)

lemma evaluate_same_value:
  assumes "dataWindow ad = replicate n v" and "2 \<le> n"
    and "sum_f ad = real n * v" and "sumOfSquares ad = real n * (v * v)"
  shows "evaluate ad v = (False, 0)"
  using assms by (simp add: evaluate_def Let_def)

lemma evaluate_one_differing_value:
  assumes w: "dataWindow ad = replicate k v @ [v']" and k: "1 \<le> k" and ne: "v' \<noteq> v"
    and s: "sum_f ad = real k * v + v'" and q: "sumOfSquares ad = real k * (v * v) + v' * v'"
  shows "evaluate ad v' = (sqrt (real k) > Threshold ad, sqrt (real k))"
proof -
  define n where "n = real k + 1"
  define mean where "mean = (real k * v + v') / n"
  define var where "var = (real k * (v * v) + v' * v') / n - mean * mean"
  have n: "n > 0" by (simp add: n_def)
  have "var = (n * (real k * (v * v) + v' * v') - (real k * v + v') * (real k * v + v')) / (n * n)"
    using n unfolding var_def mean_def by (simp add: field_simps)
  also have "n * (real k * (v * v) + v' * v') - (real k * v + v') * (real k * v + v') =
      real k * ((v' - v) * (v' - v))"
    unfolding n_def by (simp add: algebra_simps)
  also have "real k * ((v' - v) * (v' - v)) / (n * n) = real k * ((v' - v) / n)\<^sup>2"
    by (simp add: power2_eq_square)
  finally have var_eq: "var = real k * ((v' - v) / n)\<^sup>2" .
  have d: "(v' - v) / n \<noteq> 0" using ne n by simp
  have var_pos: "var > 0"
    unfolding var_eq using k d by simp
  have sd: "sqrt var = sqrt (real k) * \<bar>(v' - v) / n\<bar>"
    unfolding var_eq by (simp add: real_sqrt_mult)
  have sd_pos: "sqrt var \<noteq> 0" using var_pos by simp
  have diff: "v' - mean = real k * ((v' - v) / n)"
    using n unfolding mean_def n_def by (simp add: field_simps)
  have "\<bar>(v' - mean) / sqrt var\<bar> = sqrt (real k)"
  proof -
    have "\<bar>(v' - mean) / sqrt var\<bar> = (real k * \<bar>(v' - v) / n\<bar>) / (sqrt (real k) * \<bar>(v' - v) / n\<bar>)"
      unfolding diff sd by (simp add: abs_mult)
    also have "\<dots> = real k / sqrt (real k)"
      using d by simp
    also have "\<dots> = sqrt (real k)"
      using k by (simp add: real_div_sqrt)
    finally show ?thesis .
  qed
  note z = this
  have len: "length (dataWindow ad) = Suc k" using w by simp
  have m: "sum_f ad / real (Suc k) = mean"
    by (simp add: s mean_def n_def)
  have v0: "sumOfSquares ad / real (Suc k) - mean * mean = var"
    by (simp add: q var_def n_def)
  have c: "(if var < 0 then 0 else var) = var" using var_pos by simp
  have l2: "\<not> Suc k < 2" using k by simp
  show ?thesis
    unfolding evaluate_def Let_def len m v0 c
    using sd_pos z l2 by simp
qed

lemma ProcessData_zero_variance_window:
  assumes w: "dataWindow ad = replicate n v" and n: "2 \<le> n" and inv: "window_inv ad"
  shows "map_sum id fst (ProcessData ad \<lparr>Timestamp = ts, Value = v\<rparr>) = Inr (False, 0)"
    and "v' \<noteq> v \<Longrightarrow>
         map_sum id fst (ProcessData ad \<lparr>Timestamp = ts, Value = v'\<rparr>) =
           Inr (let k = (if int n \<ge> WindowSize ad then n - 1 else n)
                in (sqrt (real k) > Threshold ad, sqrt (real k)))"
proof -
  obtain m where m: "n = Suc m" "1 \<le> m" using n by (cases n) auto
  have s: "sum_f ad = real n * v" "sumOfSquares ad = real n * (v * v)"
    using inv w by (simp_all add: window_inv_def sum_list_replicate_real)
  let ?k = "if int n \<ge> WindowSize ad then n - 1 else n"
  have k: "1 \<le> ?k" using m by simp
  define ad1 where "ad1 = (if int n \<ge> WindowSize ad
     then ad\<lparr>sum_f := sum_f ad - v, sumOfSquares := sumOfSquares ad - v * v, dataWindow := replicate m v\<rparr>
     else ad)"
  have e: "evict ad = Inr ad1"
    using w m by (simp add: evict_def ad1_def)
  have w1: "dataWindow ad1 = replicate ?k v" "sum_f ad1 = real ?k * v"
    "sumOfSquares ad1 = real ?k * (v * v)" "Threshold ad1 = Threshold ad"
    using w s m by (simp_all add: ad1_def algebra_simps)
  have same: "evaluate (insert_value ad1 v) v = (False, 0)"
  proof (rule evaluate_same_value [where n = "Suc ?k"])
    show "dataWindow (insert_value ad1 v) = replicate (Suc ?k) v"
      by (simp only: insert_value_def w1 replicate_append_same) simp
    show "2 \<le> Suc ?k" using k by simp
    show "sum_f (insert_value ad1 v) = real (Suc ?k) * v"
      by (simp add: insert_value_def w1 algebra_simps)
    show "sumOfSquares (insert_value ad1 v) = real (Suc ?k) * (v * v)"
      by (simp add: insert_value_def w1 algebra_simps)
  qed
  show "map_sum id fst (ProcessData ad \<lparr>Timestamp = ts, Value = v\<rparr>) = Inr (False, 0)"
    using e same by (simp add: ProcessData_def Let_def)
  assume ne: "v' \<noteq> v"
  have "evaluate (insert_value ad1 v') v' =
      (sqrt (real ?k) > Threshold (insert_value ad1 v'), sqrt (real ?k))"
  proof (rule evaluate_one_differing_value [where v = v])
    show "dataWindow (insert_value ad1 v') = replicate ?k v @ [v']"
      by (simp add: insert_value_def w1)
    show "1 \<le> ?k" by (rule k)
    show "v' \<noteq> v" by (rule ne)
    show "sum_f (insert_value ad1 v') = real ?k * v + v'"
      by (simp add: insert_value_def w1)
    show "sumOfSquares (insert_value ad1 v') = real ?k * (v * v) + v' * v'"
      by (simp add: insert_value_def w1)
  qed
  moreover have "Threshold (insert_value ad1 v') = Threshold ad"
    by (simp add: insert_value_def w1)
  ultimately show "map_sum id fst (ProcessData ad \<lparr>Timestamp = ts, Value = v'\<rparr>) =
           Inr (let k = (if int n \<ge> WindowSize ad then n - 1 else n)
                in (sqrt (real k) > Threshold ad, sqrt (real k)))"
    using e by (simp add: ProcessData_def Let_def)
qed

lemma sqrt_quarter: "sqrt (1 / 4) = 1 / 2"
  by (simp add: real_sqrt_divide)

text \<open>
  Claim C1, at a failing input. A detector with window size 2 and threshold 2 has seen 5 and
  5, so its window is two identical values. Classifying 6 then gives \<open>isAnomaly = false\<close>
  and \<open>zScore = 1\<close>, not an anomaly with the maximal z-score: the value is inserted before
  the statistics are taken, so the standard deviation is not zero.
\<close>

theorem zero_variance_differing_value_at_5_5_6:
  "map_sum id fst (fresh_run 2 2 [\<lparr>Timestamp = 1, Value = 5\<rparr>, \<lparr>Timestamp = 2, Value = 5\<rparr>,
       \<lparr>Timestamp = 3, Value = 6\<rparr>]) = Inr [(False, 0), (False, 0), (False, 1)]"
  by (simp add: fresh_run_def NewDetector_def makeslice_panics_def maxAlloc_def ProcessData_def
      evict_def insert_value_def evaluate_def Let_def sqrt_quarter)

section \<open>Properties of the fault injector\<close>

text \<open>
  Claim C4, at a failing input. The fault has probability 1 and duration 10; the first call,
  at instant 0, returns true. The call at instant 20, after the duration has elapsed, does
  not return false: the expired activation falls through to a new roll, which succeeds. It
  is the same after a sweep by \<open>CleanupExpiredFaults\<close>.
\<close>

theorem ShouldInjectFault_after_duration_at_20:
  "fst (ShouldInjectFault armed_injector ''latency'' 0) = True \<and>
   20 - 0 \<ge> Duration latency_always \<and>
   fst (ShouldInjectFault (snd (ShouldInjectFault armed_injector ''latency'' 0))
          ''latency'' 20) \<noteq> False \<and>
   fst (ShouldInjectFault
          (CleanupExpiredFaults (snd (ShouldInjectFault armed_injector ''latency'' 0)) 20)
          ''latency'' 20) \<noteq> False"
  by (simp add: armed_injector_def latency_always_def ConfigureFault_def NewRedTeam_def
      ShouldInjectFault_def Float64_def CleanupExpiredFaults_def)

text \<open>
  Claim C4, amended. For an enabled fault kind with probability 1 (every draw of the
  generator is in \<open>[0, 1)\<close>): a call with no activation recorded rolls, returns true and
  records the activation at the instant of the call; a call within the duration of the
  recorded activation returns true and changes nothing, so nothing is drawn; a call after
  the duration has elapsed rolls again, returns true and records a new activation.
\<close>

theorem ShouldInjectFault_certain_fault:
  assumes "faultConfigs rt faultType = Some config"
    and "Enabled config"
    and "Probability config = 1"
    and "0 \<le> rand rt (randCalls rt)"
    and "rand rt (randCalls rt) < 1"
  shows "ShouldInjectFault rt faultType now =
           (case activeFaults rt faultType of
              None \<Rightarrow>
                (True, rt\<lparr>randCalls := randCalls rt + 1,
                          activeFaults := (activeFaults rt)(faultType \<mapsto> now)\<rparr>)
            | Some activeTime \<Rightarrow>
                if now - activeTime < Duration config then (True, rt)
                else (True, rt\<lparr>randCalls := randCalls rt + 1,
                               activeFaults := (activeFaults rt)(faultType \<mapsto> now)\<rparr>))"
  using assms by (simp add: ShouldInjectFault_def Float64_def split: option.splits)

theorem ShouldInjectFault_certain_fault_witness:
  "faultConfigs armed_injector ''latency'' = Some (latency_always\<lparr>Enabled := True\<rparr>) \<and>
   faultConfigs active_injector ''latency'' = Some (latency_always\<lparr>Enabled := True\<rparr>) \<and>
   Enabled (latency_always\<lparr>Enabled := True\<rparr>) \<and>
   Probability (latency_always\<lparr>Enabled := True\<rparr>) = 1 \<and>
   0 \<le> rand armed_injector (randCalls armed_injector) \<and>
   rand armed_injector (randCalls armed_injector) < 1 \<and>
   0 \<le> rand active_injector (randCalls active_injector) \<and>
   rand active_injector (randCalls active_injector) < 1 \<and>
   ShouldInjectFault armed_injector ''latency'' 0 =
     (True, armed_injector\<lparr>randCalls := 1, activeFaults := [''latency'' \<mapsto> 0]\<rparr>) \<and>
   ShouldInjectFault active_injector ''latency'' 5 = (True, active_injector) \<and>
   ShouldInjectFault active_injector ''latency'' 20 =
     (True, armed_injector\<lparr>randCalls := 2, activeFaults := [''latency'' \<mapsto> 20]\<rparr>)"
proof -
  have h1: "faultConfigs armed_injector ''latency'' = Some (latency_always\<lparr>Enabled := True\<rparr>)"
    by (simp add: armed_injector_def latency_always_def ConfigureFault_def NewRedTeam_def)
  have h2: "Enabled (latency_always\<lparr>Enabled := True\<rparr>)"
    by simp
  have h3: "Probability (latency_always\<lparr>Enabled := True\<rparr>) = 1"
    by (simp add: latency_always_def)
  have h4: "0 \<le> rand armed_injector (randCalls armed_injector)"
    by (simp add: armed_injector_def ConfigureFault_def NewRedTeam_def)
  have h5: "rand armed_injector (randCalls armed_injector) < 1"
    by (simp add: armed_injector_def ConfigureFault_def NewRedTeam_def)
  have a: "activeFaults armed_injector = Map.empty" "randCalls armed_injector = 0"
    by (simp_all add: armed_injector_def ConfigureFault_def NewRedTeam_def)
  from ShouldInjectFault_certain_fault [OF h1 h2 h3 h4 h5, of 0]
  have first: "ShouldInjectFault armed_injector ''latency'' 0 =
     (True, armed_injector\<lparr>randCalls := 1, activeFaults := [''latency'' \<mapsto> 0]\<rparr>)"
    by (simp add: a)
  then have act: "active_injector =
      armed_injector\<lparr>randCalls := 1, activeFaults := [''latency'' \<mapsto> 0]\<rparr>"
    by (simp add: active_injector_def)
  have g1: "faultConfigs active_injector ''latency'' = Some (latency_always\<lparr>Enabled := True\<rparr>)"
    by (simp add: act h1)
  have g4: "0 \<le> rand active_injector (randCalls active_injector)"
    by (simp add: act armed_injector_def ConfigureFault_def NewRedTeam_def)
  have g5: "rand active_injector (randCalls active_injector) < 1"
    by (simp add: act armed_injector_def ConfigureFault_def NewRedTeam_def)
  have d: "Duration (latency_always\<lparr>Enabled := True\<rparr>) = 10"
    by (simp add: latency_always_def)
  from ShouldInjectFault_certain_fault [OF g1 h2 h3 g4 g5, of 5]
  have within: "ShouldInjectFault active_injector ''latency'' 5 = (True, active_injector)"
    by (simp add: act d)
  from ShouldInjectFault_certain_fault [OF g1 h2 h3 g4 g5, of 20]
  have after: "ShouldInjectFault active_injector ''latency'' 20 =
     (True, armed_injector\<lparr>randCalls := 2, activeFaults := [''latency'' \<mapsto> 20]\<rparr>)"
    by (simp add: act d)
  from h1 g1 h2 h3 h4 h5 g4 g5 first within after show ?thesis by blast
qed

text \<open>
  Claim C10. \<open>ConfigureFault\<close> stores the definition under its type with \<open>Enabled\<close> set to
  true whatever the caller passed, and leaves the active faults alone; a fault configured
  with \<open>Enabled = false\<close> and probability 1 is injected at the next call.
\<close>

theorem ConfigureFault_always_enables:
  "faultConfigs (ConfigureFault rt config) (Type config) = Some (config\<lparr>Enabled := True\<rparr>) \<and>
   faultConfigs (ConfigureFault rt (config\<lparr>Enabled := False\<rparr>)) (Type config) =
     Some (config\<lparr>Enabled := True\<rparr>) \<and>
   activeFaults (ConfigureFault rt config) = activeFaults rt \<and>
   fst (ShouldInjectFault
          (ConfigureFault (NewRedTeam (\<lambda>_. 1 / 2))
             \<lparr>Type = ''latency'', Probability = 1, Duration = 10, Parameters = Map.empty,
              Enabled = False\<rparr>) ''latency'' 0) = True"
  by (simp add: ConfigureFault_def NewRedTeam_def ShouldInjectFault_def Float64_def)

section \<open>Properties of the healer\<close>

lemma executeHealingStrategy_Timestamp:
  "Timestamp_ha (snd (executeHealingStrategy strategy action)) = Timestamp_ha action"
  by (simp add: executeHealingStrategy_def executeDetectorReset_def executeCircuitBreaker_def
      executeFallbackMode_def executeResourceCleanup_def executeConfigReload_def)

lemma initiateHealing_Timestamp:
  "Timestamp_ha (fst (initiateHealing bt issueType strategy description now)) = now"
proof -
  let ?a = "\<lparr>ID = ''heal_'' @ show_int now @ ''_'' @ issueType,
             Type_ha = issueType, Strategy = strategy, Description = description,
             Timestamp_ha = now, Status = ''initiated'', Success = False, Error = []\<rparr>"
  obtain success action1 where e: "executeHealingStrategy strategy ?a = (success, action1)"
    by (cases "executeHealingStrategy strategy ?a")
  from executeHealingStrategy_Timestamp [of strategy ?a] e
  have "Timestamp_ha action1 = now" by simp
  with e show ?thesis
    by (simp add: initiateHealing_def Let_def)
qed

lemma initiateHealing_history:
  "healingActions (snd (initiateHealing bt issueType strategy description now)) =
     (if int (length (healingActions bt)) + 1 > maxActions bt
      then drop 1 (healingActions bt @
                     [fst (initiateHealing bt issueType strategy description now)])
      else healingActions bt @ [fst (initiateHealing bt issueType strategy description now)])"
  by (simp add: initiateHealing_def Let_def split: prod.splits)

lemma initiateHealing_maxActions:
  "maxActions (snd (initiateHealing bt issueType strategy description now)) = maxActions bt"
  by (simp add: initiateHealing_def Let_def split: prod.splits)

lemma HealOnDemand_timestamps:
  "map Timestamp_ha (healingActions (snd (HealOnDemand bt issueType strategy now))) =
     (if int (length (healingActions bt)) + 1 > maxActions bt
      then drop 1 (map Timestamp_ha (healingActions bt) @ [now])
      else map Timestamp_ha (healingActions bt) @ [now])"
proof -
  have "map Timestamp_ha (drop 1 (healingActions bt @ [a])) =
      drop 1 (map Timestamp_ha (healingActions bt) @ [Timestamp_ha a])" for a
    by (simp only: drop_map [symmetric] map_append list.map)
  then show ?thesis
    unfolding HealOnDemand_def Let_def initiateHealing_history
    by (simp add: initiateHealing_Timestamp del: drop_append)
qed

lemma HealOnDemand_maxActions:
  "maxActions (snd (HealOnDemand bt issueType strategy now)) = maxActions bt"
  by (simp add: HealOnDemand_def initiateHealing_maxActions)

lemma HealOnDemand_step:
  assumes "1 \<le> maxActions bt" and "int (length (healingActions bt)) \<le> maxActions bt"
  shows "map Timestamp_ha (healingActions (snd (HealOnDemand bt issueType strategy now))) =
           last_n (nat (maxActions bt)) (map Timestamp_ha (healingActions bt) @ [now])"
proof (cases "int (length (healingActions bt)) + 1 > maxActions bt")
  case True
  with assms have "nat (maxActions bt) = length (healingActions bt)" by linarith
  with True show ?thesis
    by (simp add: HealOnDemand_timestamps last_n_def del: drop_append)
next
  case False
  then have "length (healingActions bt) + 1 \<le> nat (maxActions bt)" by linarith
  with False show ?thesis
    by (simp add: HealOnDemand_timestamps last_n_def)
qed

lemma heal_repeatedly_timestamps:
  assumes "1 \<le> maxActions bt" and "int (length (healingActions bt)) \<le> maxActions bt"
  shows "map Timestamp_ha (healingActions (heal_repeatedly bt issueType strategy nows)) =
           last_n (nat (maxActions bt)) (map Timestamp_ha (healingActions bt) @ nows) \<and>
         maxActions (heal_repeatedly bt issueType strategy nows) = maxActions bt"
  using assms
proof (induction nows arbitrary: bt)
  case Nil
  then have "length (healingActions bt) \<le> nat (maxActions bt)" by linarith
  then show ?case by (simp add: last_n_def)
next
  case (Cons now nows)
  let ?bt1 = "snd (HealOnDemand bt issueType strategy now)"
  have ts: "map Timestamp_ha (healingActions ?bt1) =
      last_n (nat (maxActions bt)) (map Timestamp_ha (healingActions bt) @ [now])"
    using Cons.prems by (rule HealOnDemand_step)
  have m: "maxActions ?bt1 = maxActions bt"
    by (rule HealOnDemand_maxActions)
  have "length (map Timestamp_ha (healingActions ?bt1)) \<le> nat (maxActions bt)"
    unfolding ts by (simp add: last_n_def)
  with Cons.prems(1) have l: "int (length (healingActions ?bt1)) \<le> maxActions ?bt1"
    unfolding m by simp
  from Cons.prems m have "1 \<le> maxActions ?bt1" by simp
  from Cons.IH [OF this l] ts m
    last_n_append_step [of "nat (maxActions bt)" "map Timestamp_ha (healingActions bt) @ [now]" nows]
  show ?case by simp
qed

text \<open>
  Claim C5, at a failing input. The history holds 20 actions, its capacity, those of the
  instants 1 to 20; a tenth of the capacity is 2. One more healing leaves the 20 actions of
  the instants 2 to 21: a single entry was removed, not two.
\<close>

theorem healing_history_eviction_at_capacity_20:
  "maxActions full_history = 20 \<and>
   map Timestamp_ha (healingActions full_history) =
     [1, 2, 3, 4, 5, 6, 7, 8, 9, 10, 11, 12, 13, 14, 15, 16, 17, 18, 19, 20] \<and>
   map Timestamp_ha
     (healingActions (snd (HealOnDemand full_history ''high_latency'' ''circuit_breaker'' 21))) =
     [2, 3, 4, 5, 6, 7, 8, 9, 10, 11, 12, 13, 14, 15, 16, 17, 18, 19, 20, 21]"
proof -
  have s: "maxActions small_team = 20" "healingActions small_team = []"
    by (simp_all add: small_team_def NewBlueTeam_def)
  then have "1 \<le> maxActions small_team"
    and "int (length (healingActions small_team)) \<le> maxActions small_team"
    by simp_all
  from heal_repeatedly_timestamps [OF this, of "''high_latency''" "''circuit_breaker''"
      "[1, 2, 3, 4, 5, 6, 7, 8, 9, 10, 11, 12, 13, 14, 15, 16, 17, 18, 19, 20]"]
  have f: "maxActions full_history = 20"
    "map Timestamp_ha (healingActions full_history) =
       [1, 2, 3, 4, 5, 6, 7, 8, 9, 10, 11, 12, 13, 14, 15, 16, 17, 18, 19, 20]"
    by (simp_all add: full_history_def s last_n_def)
  have "length (map Timestamp_ha (healingActions full_history)) = 20"
    unfolding f(2) by simp
  then have "length (healingActions full_history) = 20"
    by simp
  with f show ?thesis
    by (simp add: HealOnDemand_timestamps)
qed

text \<open>
  Claim C5, amended. When the history with the new action is over \<open>maxActions\<close>, exactly one
  entry is removed, the oldest, and the history keeps its length.
\<close>

theorem initiateHealing_evicts_single_oldest:
  assumes "int (length (healingActions bt)) + 1 > maxActions bt"
  shows "healingActions (snd (initiateHealing bt issueType strategy description now)) =
           drop 1 (healingActions bt @
                     [fst (initiateHealing bt issueType strategy description now)]) \<and>
         length (healingActions (snd (initiateHealing bt issueType strategy description now))) =
           length (healingActions bt)"
  using assms by (simp add: initiateHealing_def Let_def split: prod.splits)

theorem initiateHealing_evicts_single_oldest_witness:
  "int (length (healingActions one_slot_used)) + 1 > maxActions one_slot_used \<and>
   map Timestamp_ha
     (healingActions
        (snd (initiateHealing one_slot_used ''high_latency'' ''circuit_breaker'' ''again'' 2))) =
     [2]"
proof -
  have m: "maxActions one_slot_used = 1"
    by (simp add: one_slot_used_def HealOnDemand_maxActions NewBlueTeam_def)
  have t: "map Timestamp_ha (healingActions one_slot_used) = [1]"
    by (simp add: one_slot_used_def HealOnDemand_timestamps NewBlueTeam_def)
  have "length (map Timestamp_ha (healingActions one_slot_used)) = 1"
    unfolding t by simp
  then have l: "length (healingActions one_slot_used) = 1"
    by simp
  have h: "int (length (healingActions one_slot_used)) + 1 > maxActions one_slot_used"
    by (simp add: m l)
  from initiateHealing_evicts_single_oldest
    [OF h, of "''high_latency''" "''circuit_breaker''" "''again''" 2]
  have "map Timestamp_ha
      (healingActions
         (snd (initiateHealing one_slot_used ''high_latency'' ''circuit_breaker'' ''again'' 2))) =
      map Timestamp_ha (drop 1 (healingActions one_slot_used @
        [fst (initiateHealing one_slot_used ''high_latency'' ''circuit_breaker'' ''again'' 2)]))"
    by simp
  also have "\<dots> = drop 1 (map Timestamp_ha (healingActions one_slot_used) @ [2])"
    by (simp only: drop_map [symmetric] map_append list.map initiateHealing_Timestamp)
  also have "\<dots> = [2]"
    by (simp add: t)
  finally show ?thesis using h by simp
qed

lemma unknown_strategy_error_overwritten:
  assumes "\<not> known_strategy strategy"
  shows "Success (fst (HealOnDemand bt issueType strategy now)) = False \<and>
         Status (fst (HealOnDemand bt issueType strategy now)) = ''failed'' \<and>
         Error (fst (HealOnDemand bt issueType strategy now)) = ''Healing strategy execution failed''"
  using assms
  by (simp add: HealOnDemand_def initiateHealing_def executeHealingStrategy_def
      known_strategy_def Let_def)

text \<open>
  Claim C8, at a failing input. Healing with the unknown strategy \<open>bogus\<close> returns an action
  with \<open>Success = false\<close> and \<open>Status = failed\<close>, but its \<open>Error\<close> does not report the
  unknown strategy: \<open>executeHealingStrategy\<close> writes that message, and \<open>initiateHealing\<close>
  then overwrites it with the general one.
\<close>

theorem HealOnDemand_unknown_strategy_at_bogus:
  "executeHealingStrategy ''bogus'' action =
     (False, action\<lparr>Error := ''Unknown healing strategy: bogus''\<rparr>) \<and>
   Success (fst (HealOnDemand small_team ''high_latency'' ''bogus'' 1)) = False \<and>
   Status (fst (HealOnDemand small_team ''high_latency'' ''bogus'' 1)) = ''failed'' \<and>
   Error (fst (HealOnDemand small_team ''high_latency'' ''bogus'' 1)) =
     ''Healing strategy execution failed'' \<and>
   Error (fst (HealOnDemand small_team ''high_latency'' ''bogus'' 1)) \<noteq>
     ''Unknown healing strategy: bogus''"
  by (simp add: HealOnDemand_def initiateHealing_def executeHealingStrategy_def Let_def
      StrategyResetDetector_def StrategyCircuitBreaker_def StrategyFallbackMode_def
      StrategyResourceCleanup_def StrategyConfigReload_def)

section \<open>Properties of the ledger\<close>

lemma LogEvent_large_capacity:
  assumes "99 \<le> maxEvents a" and "int (length (events a)) \<le> maxEvents a"
  shows "\<exists>a'. LogEvent a event now = Inr a' \<and> eventCounter a' = eventCounter a + 1 \<and>
           maxEvents a' = maxEvents a \<and>
           events a' =
             (let event1 = event\<lparr>ID_ev := ''evt_'' @ show_int now @ ''_'' @
                                    show_int (eventCounter a + 1),
                                  Timestamp_ev := now\<rparr>
              in if int (length (events a)) + 1 > maxEvents a
                 then drop (nat (max (maxEvents a div 10) 100)) (events a @ [event1])
                 else events a @ [event1])"
  using assms by (auto simp: LogEvent_def Let_def max_def)

lemma LogEvent_small_capacity:
  assumes "maxEvents a \<le> 98" and "int (length (events a)) = maxEvents a"
  shows "LogEvent a event now = Inl SliceBoundsOutOfRange"
  using assms by (auto simp: LogEvent_def Let_def)

lemma LogEvent_below_capacity:
  assumes "int (length (events a)) + 1 \<le> maxEvents a"
  shows "\<exists>a'. LogEvent a event now = Inr a' \<and> maxEvents a' = maxEvents a \<and>
           eventCounter a' = eventCounter a + 1 \<and>
           length (events a') = length (events a) + 1"
  using assms by (simp add: LogEvent_def Let_def)

lemma log_all_below_capacity:
  "int (length (events a)) + int (length entries) \<le> maxEvents a \<Longrightarrow>
     \<exists>a'. log_all a entries = Inr a' \<and> maxEvents a' = maxEvents a \<and>
       length (events a') = length (events a) + length entries"
proof (induction entries arbitrary: a)
  case Nil
  then show ?case by simp
next
  case (Cons entry entries)
  obtain event now where entry: "entry = (event, now)" by (cases entry)
  from Cons.prems have "int (length (events a)) + 1 \<le> maxEvents a" by simp
  from LogEvent_below_capacity [OF this, of event now] obtain a1 where
    a1: "LogEvent a event now = Inr a1" "maxEvents a1 = maxEvents a"
        "length (events a1) = length (events a) + 1"
    by blast
  with Cons.prems have "int (length (events a1)) + int (length entries) \<le> maxEvents a1"
    by simp
  from Cons.IH [OF this] a1 entry show ?case by auto
qed

lemma log_all_append:
  "log_all a (xs @ ys) = (case log_all a xs of Inl e \<Rightarrow> Inl e | Inr a1 \<Rightarrow> log_all a1 ys)"
  by (induction xs arbitrary: a) (auto split: sum.splits)

text \<open>
  Claim C7, at a failing input. An auditor made with \<open>MaxEvents = 50\<close> holds its start-up
  event; after 49 more events the store holds 50. The next \<open>LogEvent\<close> does not evict: the
  store of 51 is asked to drop 100 entries, and the slice expression panics.
\<close>

theorem LogEvent_panics_at_capacity_50:
  "map_sum id (\<lambda>a. length (events a))
     (audit_session capacity_50 0 (replicate 49 (probe_event, 1))) = Inr 50 \<and>
   map_sum id (\<lambda>a. length (events a))
     (audit_session capacity_50 0 (replicate 49 (probe_event, 1) @ [(probe_event, 1)])) =
     Inl SliceBoundsOutOfRange"
proof -
  obtain a0 where a0: "NewAuditor capacity_50 True 0 = Inr a0" "maxEvents a0 = 50"
    "length (events a0) = 1"
    by (simp add: NewAuditor_def capacity_50_def LogEvent_def Let_def)
  have "int (length (events a0)) + int (length (replicate 49 (probe_event, 1::int))) \<le> maxEvents a0"
    using a0 by simp
  from log_all_below_capacity [OF this] obtain a1 where
    a1: "log_all a0 (replicate 49 (probe_event, 1)) = Inr a1" "maxEvents a1 = 50"
        "length (events a1) = 50"
    using a0 by auto
  have "LogEvent a1 probe_event 1 = Inl SliceBoundsOutOfRange"
    using a1 by (intro LogEvent_small_capacity) simp_all
  then show ?thesis
    using a0 a1 by (simp add: audit_session_def log_all_append)
qed

section \<open>Properties of the compliance monitor\<close>

lemma compare_swap_Cons_Suc:
  "compare_swap (x # t) (Suc j) = x # compare_swap t j"
  by (simp add: compare_swap_def)

lemma foldl_compare_swap_Cons:
  "foldl compare_swap (x # t) (map Suc js) = x # foldl compare_swap t js"
  by (induction js arbitrary: t) (simp_all add: compare_swap_Cons_Suc)

lemma pass_0: "pass 0 s = s"
  by (simp add: pass_def)

lemma pass_Suc:
  "pass (Suc m) (x # y # zs) =
     (if x > y then y # pass m (x # zs) else x # pass m (y # zs))"
proof -
  have "[0..<Suc m] = 0 # map Suc [0..<m]"
    by (simp add: upt_conv_Cons map_Suc_upt del: upt_Suc)
  then have "pass (Suc m) (x # y # zs) =
      foldl compare_swap (compare_swap (x # y # zs) 0) (map Suc [0..<m])"
    by (simp add: pass_def del: upt_Suc)
  also have "\<dots> = (if x > y then y # pass m (x # zs) else x # pass m (y # zs))"
    by (simp add: compare_swap_def foldl_compare_swap_Cons pass_def)
  finally show ?thesis .
qed

lemma pass_basic:
  "m < length s \<Longrightarrow>
     length (pass m s) = length s \<and> mset (pass m s) = mset s \<and>
     drop (Suc m) (pass m s) = drop (Suc m) s"
proof (induction m arbitrary: s)
  case 0
  then show ?case by (simp add: pass_0)
next
  case (Suc m)
  then obtain x y zs where s: "s = x # y # zs"
    by (cases s; cases "tl s") auto
  from Suc.prems s have "m < length (x # zs)" and "m < length (y # zs)" by simp_all
  from Suc.IH [OF this(1)] Suc.IH [OF this(2)] s show ?case
    by (simp add: pass_Suc)
qed

lemma pass_take_mset:
  assumes "m < length s"
  shows "mset (take (Suc m) (pass m s)) = mset (take (Suc m) s)"
proof -
  from pass_basic [OF assms] have
    b: "mset (pass m s) = mset s" "drop (Suc m) (pass m s) = drop (Suc m) s" by simp_all
  have "mset (take (Suc m) (pass m s)) + mset (drop (Suc m) (pass m s)) = mset (pass m s)"
    by (simp only: union_code append_take_drop_id)
  moreover have "mset (take (Suc m) s) + mset (drop (Suc m) s) = mset s"
    by (simp only: union_code append_take_drop_id)
  ultimately have "mset (take (Suc m) (pass m s)) + mset (drop (Suc m) s) =
      mset (take (Suc m) s) + mset (drop (Suc m) s)"
    using b by simp
  then show ?thesis by simp
qed

lemma pass_max:
  "m < length s \<Longrightarrow> \<forall>x \<in> set (take (Suc m) (pass m s)). x \<le> pass m s ! m"
proof (induction m arbitrary: s)
  case 0
  then obtain x t where "s = x # t" by (cases s) auto
  then show ?case by (simp add: pass_0)
next
  case (Suc m)
  then obtain x y zs where s: "s = x # y # zs"
    by (cases s; cases "tl s") auto
  show ?case
  proof (cases "x > y")
    case True
    from Suc.prems s have l: "m < length (x # zs)" by simp
    from pass_take_mset [OF l] have "set (take (Suc m) (pass m (x # zs))) = set (take (Suc m) (x # zs))"
      by (rule mset_eq_setD)
    then have "x \<in> set (take (Suc m) (pass m (x # zs)))" by simp
    with Suc.IH [OF l] have "x \<le> pass m (x # zs) ! m" by blast
    with Suc.IH [OF l] True s show ?thesis
      by (simp add: pass_Suc)
  next
    case False
    from Suc.prems s have l: "m < length (y # zs)" by simp
    from pass_take_mset [OF l] have "set (take (Suc m) (pass m (y # zs))) = set (take (Suc m) (y # zs))"
      by (rule mset_eq_setD)
    then have "y \<in> set (take (Suc m) (pass m (y # zs)))" by simp
    with Suc.IH [OF l] have "y \<le> pass m (y # zs) ! m" by blast
    with Suc.IH [OF l] False s show ?thesis
      by (simp add: pass_Suc)
  qed
qed

lemma inner_loop_pass: "inner_loop s i = pass (length s - 1 - i) s"
  by (simp add: inner_loop_def pass_def)

lemma passes_Suc: "passes (Suc i) s = pass (length (passes i s) - 1 - i) (passes i s)"
  by (simp add: passes_def inner_loop_pass)

lemma passes_inv:
  "i \<le> length s \<Longrightarrow>
     length (passes i s) = length s \<and> mset (passes i s) = mset s \<and>
     sorted (drop (length s - i) (passes i s)) \<and>
     (\<forall>x \<in> set (take (length s - i) (passes i s)).
        \<forall>y \<in> set (drop (length s - i) (passes i s)). x \<le> y)"
proof (induction i)
  case 0
  then show ?case by (simp add: passes_def)
next
  case (Suc i)
  define t where "t = passes i s"
  define m where "m = length s - 1 - i"
  define t' where "t' = pass m t"
  from Suc have ih: "length t = length s" "mset t = mset s" "sorted (drop (length s - i) t)"
    "\<forall>x \<in> set (take (length s - i) t). \<forall>y \<in> set (drop (length s - i) t). x \<le> y"
    by (simp_all add: t_def)
  from Suc.prems ih have m: "m < length t" "Suc m = length s - i" "length s - Suc i = m"
    by (simp_all add: m_def)
  have eq: "passes (Suc i) s = t'"
    by (simp add: passes_Suc t_def t'_def m_def ih(1) [unfolded t_def])
  from pass_basic [OF m(1)] have b: "length t' = length t" "mset t' = mset t"
    "drop (Suc m) t' = drop (Suc m) t" by (simp_all add: t'_def)
  from pass_take_mset [OF m(1)] have ts: "set (take (Suc m) t') = set (take (Suc m) t)"
    unfolding t'_def by (rule mset_eq_setD)
  from pass_max [OF m(1)] have mx: "\<forall>x \<in> set (take (Suc m) t'). x \<le> t' ! m"
    by (simp add: t'_def)
  have dm: "drop m t' = t' ! m # drop (Suc m) t"
    using m(1) b by (simp add: Cons_nth_drop_Suc [symmetric])
  have tm: "t' ! m \<in> set (take (Suc m) t')"
    using m(1) b(1) by (simp add: take_Suc_conv_app_nth)
  have sub: "set (take m t') \<subseteq> set (take (Suc m) t')"
    by (simp add: set_take_subset_set_take)
  have low: "\<forall>x \<in> set (take (Suc m) t'). \<forall>y \<in> set (drop (Suc m) t). x \<le> y"
    using ih(4) ts m(2) by simp
  have "sorted (drop m t')"
    using dm ih(3) m(2) low tm by simp
  moreover have "\<forall>x \<in> set (take m t'). \<forall>y \<in> set (drop m t'). x \<le> y"
    using dm sub mx low by auto
  ultimately show ?case
    using eq b ih m by simp
qed

lemma bubble_sort_sort: "bubble_sort s = sort s"
proof -
  have "bubble_sort s = passes (length s) s"
    by (simp add: bubble_sort_def passes_def)
  moreover from passes_inv [of "length s" s]
  have "mset (passes (length s) s) = mset s" "sorted (passes (length s) s)" by simp_all
  ultimately show ?thesis
    by (simp add: properties_for_sort)
qed

lemma p95_index_in_range:
  assumes "0 < n"
  shows "nat \<lfloor>real n * 0.95\<rfloor> < n"
proof -
  have "real n * 0.95 < real n" using assms by simp
  then have "\<lfloor>real n * 0.95\<rfloor> < int n" by linarith
  with assms show ?thesis by linarith
qed

text \<open>
  Claim C6. For a non-empty latency buffer of \<open>n\<close> samples the reported P95 is the element
  at index \<open>floor (0.95 * n)\<close>, clamped to \<open>n - 1\<close>, of the buffer sorted in ascending order.
  The ten samples 10, 20, ..., 100 give 100, and the hundred samples 1, ..., 100 give 96.
\<close>

theorem calculateP95Latency_sorted_index:
  "(latencySamples h \<noteq> [] \<longrightarrow>
      calculateP95Latency h =
        sort (latencySamples h) !
          min (nat \<lfloor>0.95 * real (length (latencySamples h))\<rfloor>) (length (latencySamples h) - 1)) \<and>
   calculateP95Latency (h\<lparr>latencySamples := [10, 20, 30, 40, 50, 60, 70, 80, 90, 100]\<rparr>) = 100 \<and>
   calculateP95Latency (h\<lparr>latencySamples := map real [1..<101]\<rparr>) = 96"
proof (intro conjI impI)
  assume ne: "latencySamples h \<noteq> []"
  then have "0 < length (latencySamples h)" by simp
  from p95_index_in_range [OF this] ne
  show "calculateP95Latency h =
        sort (latencySamples h) !
          min (nat \<lfloor>0.95 * real (length (latencySamples h))\<rfloor>) (length (latencySamples h) - 1)"
    by (simp add: calculateP95Latency_def bubble_sort_sort Let_def min_def mult.commute)
next
  have "sort [10, 20, 30, 40, 50, 60, 70, 80, 90, 100 :: real] = [10, 20, 30, 40, 50, 60, 70, 80, 90, 100]"
    by (rule sorted_sort_id) simp
  moreover have "nat \<lfloor>(10::real) * 0.95\<rfloor> = 9" by simp
  ultimately show "calculateP95Latency (h\<lparr>latencySamples := [10, 20, 30, 40, 50, 60, 70, 80, 90, 100]\<rparr>) = 100"
    by (simp add: calculateP95Latency_def bubble_sort_sort Let_def)
next
  have "sorted (map real [1..<101])"
    by (simp add: sorted_map sorted_wrt_iff_nth_less del: upt_Suc)
  then have "sort (map real [1..<101]) = map real [1..<101]"
    by (rule sorted_sort_id)
  moreover have "nat \<lfloor>(100::real) * 0.95\<rfloor> = 95" by simp
  ultimately show "calculateP95Latency (h\<lparr>latencySamples := map real [1..<101]\<rparr>) = 96"
    by (simp add: calculateP95Latency_def bubble_sort_sort Let_def del: upt_Suc)
qed

theorem calculateP95Latency_sorted_index_witness:
  "latencySamples \<lparr>latencySamples = [30, 10, 20], decisionOutcomes = [True, True, True],
                     revenueTracking = [1, 1, 1], maxSamples = 10000\<rparr> \<noteq> [] \<and>
   calculateP95Latency \<lparr>latencySamples = [30, 10, 20], decisionOutcomes = [True, True, True],
                          revenueTracking = [1, 1, 1], maxSamples = 10000\<rparr> = 30"
  using calculateP95Latency_sorted_index
    [of "\<lparr>latencySamples = [30, 10, 20], decisionOutcomes = [True, True, True],
          revenueTracking = [1, 1, 1], maxSamples = 10000\<rparr>"]
  by simp

end
